theory Spec2Isabelle
  imports Complex_Main "HOL-Library.Word"
begin

section \<open>JavaScript values used by the chat client\<close>

text \<open>
  Strings are lists of UTF-16 code units; the model keeps the code units up to U+00FF,
  one \<^typ>\<open>char\<close> each. Numbers are IEEE doubles; a finite double is abstracted to the
  real it denotes and \<open>NaN\<close> is kept apart, since \<open>isNaN\<close> and the media element
  depend on it. The infinities are outside the model: the numbers that reach this
  code are media times of \<open>data:\<close> sources and numbers of the JSON wire format.
\<close>

datatype jsnum = NaN | Num real

datatype js_error = TypeError | InvalidCharacterError

text \<open>\<open>a * b\<close> on numbers: \<open>NaN\<close> is absorbing.\<close>

fun js_mul :: "jsnum \<Rightarrow> jsnum \<Rightarrow> jsnum" where
  "js_mul (Num a) (Num b) = Num (a * b)"
| "js_mul _ _ = NaN"

text \<open>\<open>a % b\<close> on finite numbers with \<open>b \<noteq> 0\<close>: the quotient is truncated towards
  zero, so the result has the sign of the dividend.\<close>

definition trunc :: "real \<Rightarrow> int" where
  "trunc x = (if 0 \<le> x then \<lfloor>x\<rfloor> else \<lceil>x\<rceil>)"

definition js_rem :: "real \<Rightarrow> real \<Rightarrow> real" where
  "js_rem a b = a - b * of_int (trunc (a / b))"

definition digit :: "nat \<Rightarrow> char" where
  "digit n = ''0123456789'' ! (n mod 10)"

fun show_nat :: "nat \<Rightarrow> string" where
  "show_nat n = (if n < 10 then [digit n] else show_nat (n div 10) @ [digit (n mod 10)])"

declare show_nat.simps [simp del]

text \<open>\<open>Number.prototype.toString\<close> on an integral value below \<open>10^21\<close> in magnitude:
  plain decimal digits, with a minus sign when negative.\<close>

definition int_toString :: "int \<Rightarrow> string" where
  "int_toString i = (if i < 0 then ''-'' @ show_nat (nat (- i)) else show_nat (nat i))"

text \<open>\<open>s.padStart(targetLength, c)\<close> with a one-character fill string.\<close>

definition padStart :: "nat \<Rightarrow> char \<Rightarrow> string \<Rightarrow> string" where
  "padStart targetLength c s = replicate (targetLength - length s) c @ s"

text \<open>\<open>x.toFixed(f)\<close> for \<open>\<bar>x\<bar> < 10^21\<close>, after ECMAScript: the sign is split off, \<open>n\<close>
  is the integer nearest to \<open>x * 10^f\<close> (the larger one on a tie), its digits are
  filled with zeros up to \<open>f + 1\<close> places and the point is set before the last \<open>f\<close>.\<close>

definition toFixed :: "real \<Rightarrow> nat \<Rightarrow> string" where
  "toFixed x f =
     (let s = (if x < 0 then ''-'' else '''');
          n = nat \<lfloor>\<bar>x\<bar> * 10 ^ f + 1 / 2\<rfloor>;
          m = show_nat n;
          m = (if f \<noteq> 0
               then (let m = (if length m \<le> f
                              then replicate (f + 1 - length m) (CHR ''0'') @ m else m);
                         k = length m
                     in take (k - f) m @ ''.'' @ drop (k - f) m)
               else m)
      in s @ m)"

text \<open>String methods. \<open>trim\<close> removes the white space and line terminators of
  ECMAScript that lie below U+0100: TAB, LF, VT, FF, CR, SPACE and NBSP.\<close>

definition startsWith :: "string \<Rightarrow> string \<Rightarrow> bool" where
  "startsWith s searchString = (take (length searchString) s = searchString)"

definition substring :: "string \<Rightarrow> nat \<Rightarrow> string" where
  "substring s start = drop start s"

definition is_whitespace :: "char \<Rightarrow> bool" where
  "is_whitespace c = ((of_char c :: nat) \<in> {9, 10, 11, 12, 13, 32, 160})"

definition trim :: "string \<Rightarrow> string" where
  "trim s = rev (dropWhile is_whitespace (rev (dropWhile is_whitespace s)))"

fun js_includes :: "string \<Rightarrow> string \<Rightarrow> bool" where
  "js_includes [] searchString = (searchString = [])"
| "js_includes (c # cs) searchString =
     (startsWith (c # cs) searchString \<or> js_includes cs searchString)"

section \<open>constants/chat-constants.js\<close>

definition LOW_BUDGET_THRESHOLD :: real where
  "LOW_BUDGET_THRESHOLD = 5.00"

definition AUDIO_CHUNK_SIZE :: nat where
  "AUDIO_CHUNK_SIZE = 512"

definition PROMPT_TOO_LONG :: string where
  "PROMPT_TOO_LONG = ''Prompt Too Long''"

definition BUDGET_EXCEEDED :: string where
  "BUDGET_EXCEEDED = ''Budget Exceeded''"

definition GENERIC :: string where
  "GENERIC = ''Error''"

section \<open>utils/audio-utils.js: formatTime\<close>

fun formatTime :: "jsnum \<Rightarrow> string" where
  "formatTime NaN = ''0:00''"
| "formatTime (Num s) =
     (let minutes = \<lfloor>s / 60\<rfloor>;
          seconds = \<lfloor>js_rem s 60\<rfloor>
      in int_toString minutes @ '':'' @ padStart 2 (CHR ''0'') (int_toString seconds))"

section \<open>The wire format and the page\<close>

text \<open>
  An inbound frame is the object \<open>JSON.parse\<close> returns, with the fields and field
  types of the wire format; each field may be absent. A page holds what the handlers
  write: the children of the messages container in document order, the text of the
  two ledger elements, and whether the parent of the remaining-budget element has
  the class \<open>cost-warning\<close>.
\<close>

record CostInfo =
  request_cost :: "real option"
  total_cost :: "real option"
  remaining_budget :: "real option"

record ToolCall =
  name :: string
  parameters :: string
  result :: "string option"

record AgentFlow =
  tool_calls :: "ToolCall list option"
  internal_messages :: "string list option"

record InboundFrame =
  message :: "string option"
  cost_info :: "CostInfo option"
  agent_flow :: "AgentFlow option"
  base64_image :: "string option"
  base64_audio :: "string option"
  research_result :: "string option"

datatype chip =
    CostChip string
  | AgentFlowChip bool AgentFlow

datatype node =
    Message bool string "chip list option"
  | ErrorCard string string
  | GeneratedImage string
  | AudioPlayer string
  | ResearchResult string

record page =
  messagesContainer :: "node list"
  totalCost :: string
  remainingBudget :: string
  cost_warning :: bool

text \<open>Truthiness of an optional string field: present and not empty.\<close>

fun truthy :: "string option \<Rightarrow> bool" where
  "truthy None = False"
| "truthy (Some s) = (s \<noteq> [])"

section \<open>components/message-component.js: messages, chips and error cards\<close>

definition createCostChip :: "real \<Rightarrow> chip" where
  "createCostChip cost = CostChip (''$'' @ toFixed cost 3)"

text \<open>The flow chip starts with the class \<open>collapsed\<close>; its content is built from the
  agent flow, which the chip keeps here as it is.\<close>

definition createAgentFlowChip :: "AgentFlow \<Rightarrow> chip" where
  "createAgentFlowChip agentFlow = AgentFlowChip True agentFlow"

text \<open>\<open>costInfo?.request_cost\<close> is truthy when \<open>costInfo\<close> is there and its
  \<open>request_cost\<close> is a number other than zero.\<close>

definition createChipsContainer :: "CostInfo option \<Rightarrow> AgentFlow option \<Rightarrow> chip list" where
  "createChipsContainer costInfo agentFlow =
     (case costInfo of
        None \<Rightarrow> []
      | Some ci \<Rightarrow>
          (case request_cost ci of
             None \<Rightarrow> []
           | Some c \<Rightarrow> if c \<noteq> 0 then [createCostChip c] else []))
     @ (case agentFlow of None \<Rightarrow> [] | Some af \<Rightarrow> [createAgentFlowChip af])"

definition appendMessage ::
  "string \<Rightarrow> bool \<Rightarrow> CostInfo option \<Rightarrow> AgentFlow option \<Rightarrow> page \<Rightarrow> page" where
  "appendMessage msg isUser costInfo agentFlow pg =
     pg\<lparr>messagesContainer := messagesContainer pg @
        [Message isUser msg
           (if \<not> isUser \<and> (costInfo \<noteq> None \<or> agentFlow \<noteq> None)
            then Some (createChipsContainer costInfo agentFlow) else None)]\<rparr>"

definition appendError :: "string \<Rightarrow> string \<Rightarrow> page \<Rightarrow> page" where
  "appendError title msg pg =
     pg\<lparr>messagesContainer := messagesContainer pg @ [ErrorCard title msg]\<rparr>"

section \<open>modules/websocket-handler.js\<close>

text \<open>The title chosen in \<open>handleErrorMessage\<close>: it starts as \<open>GENERIC\<close> and is
  replaced by the first of the two tests that succeeds.\<close>

definition classify :: "string \<Rightarrow> string" where
  "classify errorMessage =
     (if js_includes errorMessage ''Prompt must be length'' then PROMPT_TOO_LONG
      else if js_includes errorMessage ''budget exceeded'' then BUDGET_EXCEEDED
      else GENERIC)"

text \<open>\<open>handleErrorMessage\<close> reads \<open>data.message\<close> only, which its one caller has
  just tested with \<open>startsWith\<close>; the model passes that string.\<close>

definition handleErrorMessage :: "string \<Rightarrow> page \<Rightarrow> page" where
  "handleErrorMessage msg pg =
     (let errorMessage = trim (substring msg 7);
          title = classify errorMessage
      in appendError title errorMessage pg)"

definition handleImageMessage :: "string \<Rightarrow> page \<Rightarrow> page" where
  "handleImageMessage base64Image pg =
     pg\<lparr>messagesContainer := messagesContainer pg @ [GeneratedImage base64Image]\<rparr>"

definition handleAudioMessage :: "string \<Rightarrow> page \<Rightarrow> page" where
  "handleAudioMessage base64Audio pg =
     pg\<lparr>messagesContainer := messagesContainer pg @ [AudioPlayer base64Audio]\<rparr>"

definition handleResearchMessage :: "string \<Rightarrow> page \<Rightarrow> page" where
  "handleResearchMessage researchResult pg =
     pg\<lparr>messagesContainer := messagesContainer pg @ [ResearchResult researchResult]\<rparr>"

definition updateCostDisplay :: "CostInfo option \<Rightarrow> page \<Rightarrow> page" where
  "updateCostDisplay costInfo pg =
     (case costInfo of
        None \<Rightarrow> pg
      | Some ci \<Rightarrow>
          (let pg1 = (case total_cost ci of
                        None \<Rightarrow> pg
                      | Some t \<Rightarrow> pg\<lparr>totalCost := toFixed t 3\<rparr>)
           in case remaining_budget ci of
                None \<Rightarrow> pg1
              | Some r \<Rightarrow>
                  pg1\<lparr>remainingBudget := toFixed r 2,
                      cost_warning := (r < LOW_BUDGET_THRESHOLD)\<rparr>))"

text \<open>\<open>data.message?.startsWith("Error:")\<close>: false when the message is absent.\<close>

definition is_error_message :: "string option \<Rightarrow> bool" where
  "is_error_message m = (case m of None \<Rightarrow> False | Some s \<Rightarrow> startsWith s ''Error:'')"

definition handleWebSocketMessage :: "InboundFrame \<Rightarrow> page \<Rightarrow> page" where
  "handleWebSocketMessage data pg =
     (let pg1 = (if cost_info data \<noteq> None then updateCostDisplay (cost_info data) pg else pg)
      in if is_error_message (message data)
         then handleErrorMessage (the (message data)) pg1
         else
           (let pg2 = (if truthy (message data)
                       then appendMessage (the (message data)) False
                              (cost_info data) (agent_flow data) pg1
                       else pg1);
                pg3 = (if truthy (base64_image data)
                       then handleImageMessage (the (base64_image data)) pg2 else pg2);
                pg4 = (if truthy (base64_audio data)
                       then handleAudioMessage (the (base64_audio data)) pg3 else pg3);
                pg5 = (if truthy (research_result data)
                       then handleResearchMessage (the (research_result data)) pg4 else pg4)
            in pg5))"

section \<open>Sample frames and pages\<close>

definition empty_frame :: InboundFrame where
  "empty_frame = \<lparr>message = None, cost_info = None, agent_flow = None,
     base64_image = None, base64_audio = None, research_result = None\<rparr>"

definition initial_page :: page where
  "initial_page = \<lparr>messagesContainer = [], totalCost = ''0.000'',
     remainingBudget = ''25.00'', cost_warning = False\<rparr>"

definition error_frame :: InboundFrame where
  "error_frame = empty_frame\<lparr>message := Some ''Error: budget exceeded'',
     cost_info := Some \<lparr>request_cost = None, total_cost = Some 25, remaining_budget = Some 0\<rparr>,
     base64_image := Some ''iVBORw=='', base64_audio := Some ''SUQz'',
     research_result := Some ''# notes''\<rparr>"

definition warned_page :: page where
  "warned_page = \<lparr>messagesContainer = [], totalCost = ''3.500'',
     remainingBudget = ''4.00'', cost_warning = True\<rparr>"

definition total_only_frame :: InboundFrame where
  "total_only_frame = empty_frame\<lparr>cost_info :=
     Some \<lparr>request_cost = None, total_cost = Some 1, remaining_budget = None\<rparr>\<rparr>"

definition scenario_cost_frame :: InboundFrame where
  "scenario_cost_frame = empty_frame\<lparr>cost_info :=
     Some \<lparr>request_cost = None, total_cost = Some (7 / 2), remaining_budget = Some 4\<rparr>\<rparr>"

text \<open>The decimal digits.\<close>

definition digits :: "char set" where
  "digits = set ''0123456789''"

definition sample_flow :: AgentFlow where
  "sample_flow = \<lparr>tool_calls = None, internal_messages = Some [''thinking'']\<rparr>"

definition zero_cost_frame :: InboundFrame where
  "zero_cost_frame = empty_frame\<lparr>message := Some ''hello'',
     cost_info := Some \<lparr>request_cost = Some 0, total_cost = None, remaining_budget = None\<rparr>,
     agent_flow := Some sample_flow\<rparr>"

section \<open>components/message-component.js: the audio player\<close>

text \<open>
  Each player built by \<open>createAudioPlayer\<close> has an \<open>audio\<close> element and a play button;
  a player is named by a number, and \<open>currentAudio\<close> holds the number of the element it
  points to, or nothing for \<open>null\<close>. Of the element the model keeps \<open>paused\<close>,
  \<open>currentTime\<close>, \<open>duration\<close> and \<open>parentElement\<close>, the last one as the play button
  that \<open>querySelector("button")\<close> finds in the parent. \<open>createAudioPlayer\<close> appends the
  controls to the container and never the \<open>audio\<close> element, so every element it makes
  has no parent. Of the button the model keeps whether it shows the \<open>playing\<close> state.

  An event handler that throws stops there; what it wrote before stays written. So a
  handler returns the error, if any, with the state it leaves.
\<close>

record AudioElement =
  paused :: bool
  currentTime :: real
  duration :: jsnum
  parent_button :: "nat option"

record MessageComponent =
  currentAudio :: "nat option"
  audios :: "nat \<Rightarrow> AudioElement"
  buttons :: "nat \<Rightarrow> bool"

definition new_audio :: AudioElement where
  "new_audio = \<lparr>paused = True, currentTime = 0, duration = NaN, parent_button = None\<rparr>"

definition initial_component :: MessageComponent where
  "initial_component =
     \<lparr>currentAudio = None, audios = (\<lambda>_. new_audio), buttons = (\<lambda>_. False)\<rparr>"

definition playing_component :: MessageComponent where
  "playing_component =
     \<lparr>currentAudio = Some 0,
      audios = (\<lambda>_. new_audio)
        (0 := \<lparr>paused = False, currentTime = 25 / 2, duration = Num 30, parent_button = None\<rparr>),
      buttons = (\<lambda>_. False)(0 := True)\<rparr>"

text \<open>Assigning to \<open>currentTime\<close>: the attribute is a WebIDL \<open>double\<close>, so a value that
  is not finite is refused with a \<open>TypeError\<close> and the element is left as it was.\<close>

definition set_currentTime :: "jsnum \<Rightarrow> AudioElement \<Rightarrow> js_error option \<times> AudioElement" where
  "set_currentTime v a =
     (case v of NaN \<Rightarrow> (Some TypeError, a) | Num x \<Rightarrow> (None, a\<lparr>currentTime := x\<rparr>))"

definition resetAudioButton :: "nat \<Rightarrow> MessageComponent \<Rightarrow> MessageComponent" where
  "resetAudioButton b mc = mc\<lparr>buttons := (buttons mc)(b := False)\<rparr>"

text \<open>\<open>_resetCurrentAudio\<close>: \<open>pause()\<close>, then \<open>currentTime = 0\<close>, then the button is looked
  up through \<open>parentElement\<close>, which throws when there is no parent.\<close>

definition resetCurrentAudio :: "MessageComponent \<Rightarrow> js_error option \<times> MessageComponent" where
  "resetCurrentAudio mc =
     (case currentAudio mc of
        None \<Rightarrow> (Some TypeError, mc)
      | Some c \<Rightarrow>
          (let a1 = (audios mc c)\<lparr>paused := True\<rparr>;
               (e, a2) = set_currentTime (Num 0) a1;
               mc1 = mc\<lparr>audios := (audios mc)(c := a2)\<rparr>
           in case e of
                Some err \<Rightarrow> (Some err, mc1)
              | None \<Rightarrow>
                  (case parent_button a2 of
                     None \<Rightarrow> (Some TypeError, mc1)
                   | Some b \<Rightarrow> (None, resetAudioButton b mc1))))"

definition playAudio :: "nat \<Rightarrow> MessageComponent \<Rightarrow> MessageComponent" where
  "playAudio a mc =
     mc\<lparr>audios := (audios mc)(a := (audios mc a)\<lparr>paused := False\<rparr>),
        buttons := (buttons mc)(a := True),
        currentAudio := Some a\<rparr>"

definition pauseAudio :: "nat \<Rightarrow> MessageComponent \<Rightarrow> MessageComponent" where
  "pauseAudio a mc =
     resetAudioButton a (mc\<lparr>audios := (audios mc)(a := (audios mc a)\<lparr>paused := True\<rparr>)\<rparr>)"

text \<open>The click listener of the play button.\<close>

definition playButton_click :: "nat \<Rightarrow> MessageComponent \<Rightarrow> js_error option \<times> MessageComponent" where
  "playButton_click a mc =
     (let (e, mc1) = (if currentAudio mc \<noteq> None \<and> currentAudio mc \<noteq> Some a
                      then resetCurrentAudio mc else (None, mc))
      in case e of
           Some err \<Rightarrow> (Some err, mc1)
         | None \<Rightarrow> (None, if paused (audios mc1 a) then playAudio a mc1 else pauseAudio a mc1))"

text \<open>The click listener of the progress track; \<open>pos\<close> is the fraction
  \<open>(e.clientX - rect.left) / rect.width\<close>.\<close>

definition progress_click :: "real \<Rightarrow> nat \<Rightarrow> MessageComponent \<Rightarrow> js_error option \<times> MessageComponent" where
  "progress_click pos a mc =
     (let (e, a1) = set_currentTime (js_mul (Num pos) (duration (audios mc a))) (audios mc a)
      in (e, mc\<lparr>audios := (audios mc)(a := a1)\<rparr>))"

text \<open>The \<open>ended\<close> listener. The browser fires \<open>ended\<close> on an element that was playing
  and has set its \<open>paused\<close> to true by then.\<close>

definition audio_ended :: "nat \<Rightarrow> MessageComponent \<Rightarrow> MessageComponent" where
  "audio_ended a mc =
     (resetAudioButton a (mc\<lparr>audios := (audios mc)(a := (audios mc a)\<lparr>paused := True\<rparr>)\<rparr>))
       \<lparr>currentAudio := None\<rparr>"

text \<open>The events that move the player: a click on the play button of a player, or the
  end of a playing clip. \<open>run\<close> handles a sequence of them in order.\<close>

datatype event = Click nat | Ended nat

fun step :: "event \<Rightarrow> MessageComponent \<Rightarrow> MessageComponent" where
  "step (Click a) mc = snd (playButton_click a mc)"
| "step (Ended a) mc = (if paused (audios mc a) then mc else audio_ended a mc)"

fun run :: "event list \<Rightarrow> MessageComponent \<Rightarrow> MessageComponent" where
  "run [] mc = mc"
| "run (ev # evs) mc = run evs (step ev mc)"

text \<open>The invariant of the player: an element that is playing is the current one.\<close>

definition single_active :: "MessageComponent \<Rightarrow> bool" where
  "single_active mc = (\<forall>i. \<not> paused (audios mc i) \<longrightarrow> currentAudio mc = Some i)"

section \<open>Base64 text and binary strings\<close>

text \<open>
  The audio payload of a frame is base64 text, decoded in the browser by \<open>atob\<close>.
\<close>

type_synonym byte = "8 word"

definition b64_alphabet :: string where
  "b64_alphabet = ''ABCDEFGHIJKLMNOPQRSTUVWXYZabcdefghijklmnopqrstuvwxyz0123456789+/''"

fun index_of :: "'a \<Rightarrow> 'a list \<Rightarrow> nat option" where
  "index_of x [] = None"
| "index_of x (y # ys) = (if x = y then Some 0 else map_option Suc (index_of x ys))"

text \<open>
  Modelled from the spec: the base64 encoder of the sending side, which is not among
  the sources. The specification calls it base64 encoding; it is taken as standard
  base64 with padding (RFC 4648): three bytes give four six-bit digits, a last group
  of one or two bytes gives two or three digits and is filled with \<open>=\<close> to four
  characters.
\<close>

fun encode_sextets :: "byte list \<Rightarrow> nat list" where
  "encode_sextets (a # b # c # rest) =
     (let n = unat a * 65536 + unat b * 256 + unat c
      in [n div 262144, n div 4096 mod 64, n div 64 mod 64, n mod 64] @ encode_sextets rest)"
| "encode_sextets [a, b] =
     (let n = unat a * 65536 + unat b * 256
      in [n div 262144, n div 4096 mod 64, n div 64 mod 64])"
| "encode_sextets [a] =
     (let n = unat a * 65536
      in [n div 262144, n div 4096 mod 64])"
| "encode_sextets [] = []"

definition b64_encode :: "byte list \<Rightarrow> string" where
  "b64_encode x =
     map (\<lambda>s. b64_alphabet ! s) (encode_sextets x)
     @ replicate ((3 - length x mod 3) mod 3) (CHR ''='')"

text \<open>
  The browser's \<open>atob\<close> is the forgiving-base64 decode: ASCII white space is removed;
  if the length is then a multiple of four, one or two closing \<open>=\<close> are removed; a
  length that leaves remainder 1, or a character outside the alphabet, fails with
  \<open>InvalidCharacterError\<close>; four digits give three bytes, and of two or three closing
  digits the last four or two bits are dropped. The result is a binary string: one
  character per byte, with the byte as its code.
\<close>

definition is_ascii_whitespace :: "char \<Rightarrow> bool" where
  "is_ascii_whitespace c = ((of_char c :: nat) \<in> {9, 10, 12, 13, 32})"

fun drop_padding_rev :: "string \<Rightarrow> string" where
  "drop_padding_rev (c1 # c2 # r) =
     (if c1 = CHR ''='' \<and> c2 = CHR ''='' then r
      else if c1 = CHR ''='' then c2 # r
      else c1 # c2 # r)"
| "drop_padding_rev [c1] = (if c1 = CHR ''='' then [] else [c1])"
| "drop_padding_rev [] = []"

definition strip_padding :: "string \<Rightarrow> string" where
  "strip_padding data =
     (if length data mod 4 = 0 then rev (drop_padding_rev (rev data)) else data)"

fun decode_sextets :: "nat list \<Rightarrow> nat list" where
  "decode_sextets (a # b # c # d # rest) =
     (let n = ((a * 64 + b) * 64 + c) * 64 + d
      in [n div 65536, n div 256 mod 256, n mod 256] @ decode_sextets rest)"
| "decode_sextets [a, b, c] =
     (let n = ((a * 64 + b) * 64 + c) div 4
      in [n div 256, n mod 256])"
| "decode_sextets [a, b] =
     (let n = (a * 64 + b) div 16
      in [n])"
| "decode_sextets _ = []"

definition atob :: "string \<Rightarrow> js_error + string" where
  "atob data =
     (let data = filter (\<lambda>c. \<not> is_ascii_whitespace c) data;
          data = strip_padding data
      in if length data mod 4 = 1 then Inl InvalidCharacterError
         else (case those (map (\<lambda>c. index_of c b64_alphabet) data) of
                 None \<Rightarrow> Inl InvalidCharacterError
               | Some sextets \<Rightarrow> Inr (map char_of (decode_sextets sextets))))"

section \<open>utils/audio-utils.js: base64ToBlob\<close>

text \<open>
  \<open>byteArrays_loop\<close> is the \<open>for\<close> loop over \<open>offset\<close>, with the array \<open>byteArrays\<close> it
  pushes to; the inner loop that fills \<open>byteNumbers\<close> with \<open>slice.charCodeAt(i)\<close> is a
  \<open>map\<close>. \<open>new Uint8Array(byteNumbers)\<close> stores each number modulo 256, and the
  \<open>Blob\<close> holds the arrays one after the other, with the given type.
\<close>

record Blob =
  blob_bytes :: "byte list"
  blob_type :: string

definition js_slice :: "string \<Rightarrow> nat \<Rightarrow> nat \<Rightarrow> string" where
  "js_slice s start end = take (end - start) (drop start s)"

definition charCodeAt :: "char \<Rightarrow> nat" where
  "charCodeAt c = of_char c"

definition Uint8Array :: "nat list \<Rightarrow> byte list" where
  "Uint8Array byteNumbers = map word_of_nat byteNumbers"

function byteArrays_loop :: "string \<Rightarrow> nat \<Rightarrow> byte list list \<Rightarrow> byte list list" where
  "byteArrays_loop byteCharacters offset byteArrays =
     (if offset < length byteCharacters
      then (let slice = js_slice byteCharacters offset (offset + AUDIO_CHUNK_SIZE);
                byteNumbers = map charCodeAt slice;
                byteArray = Uint8Array byteNumbers
            in byteArrays_loop byteCharacters (offset + AUDIO_CHUNK_SIZE)
                 (byteArrays @ [byteArray]))
      else byteArrays)"
  by pat_completeness auto
termination
  by (relation "measure (\<lambda>(byteCharacters, offset, byteArrays). length byteCharacters - offset)")
    (auto simp: AUDIO_CHUNK_SIZE_def)

declare byteArrays_loop.simps [simp del]

definition base64ToBlob :: "string \<Rightarrow> string \<Rightarrow> js_error + Blob" where
  "base64ToBlob base64 type =
     (case atob base64 of
        Inl e \<Rightarrow> Inl e
      | Inr byteCharacters \<Rightarrow>
          Inr \<lparr>blob_bytes = concat (byteArrays_loop byteCharacters 0 []), blob_type = type\<rparr>)"

text \<open>The binary string of a byte sequence.\<close>

definition binary_string :: "byte list \<Rightarrow> string" where
  "binary_string x = map (\<lambda>b. char_of (unat b)) x"

section \<open>Facts about the time format\<close>

lemma digit_0: "digit 0 = CHR ''0''"
  by (simp add: digit_def)

lemma pad2_show_nat:
  assumes "m < 100"
  shows "padStart 2 (CHR ''0'') (show_nat m) = [digit (m div 10), digit (m mod 10)]"
proof (cases "m < 10")
  case True
  then show ?thesis by (simp add: show_nat.simps [of m] padStart_def digit_0)
next
  case False
  with assms have "m div 10 < 10" by simp
  with False show ?thesis
    by (simp add: show_nat.simps [of m] show_nat.simps [of "m div 10"] padStart_def)
qed

lemma floor_div60: "\<lfloor>x / 60\<rfloor> = \<lfloor>x :: real\<rfloor> div 60"
  using floor_divide_real_eq_div [of 60 x] by simp

lemma floor_js_rem60:
  assumes "0 \<le> x"
  shows "\<lfloor>js_rem x 60\<rfloor> = \<lfloor>x\<rfloor> mod 60"
proof -
  from assms have "trunc (x / 60) = \<lfloor>x\<rfloor> div 60"
    by (simp add: trunc_def floor_div60)
  then have "js_rem x 60 = x - of_int (60 * (\<lfloor>x\<rfloor> div 60))"
    by (simp add: js_rem_def)
  then have "\<lfloor>js_rem x 60\<rfloor> = \<lfloor>x\<rfloor> - 60 * (\<lfloor>x\<rfloor> div 60)"
    by (simp only: floor_diff_of_int)
  then show ?thesis by (simp add: minus_mult_div_eq_mod)
qed

lemma formatTime_nonneg:
  assumes "0 \<le> x"
  shows "formatTime (Num x) =
     show_nat (nat \<lfloor>x\<rfloor> div 60) @ '':'' @
       [digit (nat \<lfloor>x\<rfloor> mod 60 div 10), digit (nat \<lfloor>x\<rfloor> mod 60 mod 10)]"
proof -
  from assms have f: "0 \<le> \<lfloor>x\<rfloor>" by simp
  then have "0 \<le> \<lfloor>x\<rfloor> div 60" by (simp add: pos_imp_zdiv_nonneg_iff)
  then have m: "int_toString (\<lfloor>x\<rfloor> div 60) = show_nat (nat \<lfloor>x\<rfloor> div 60)"
    using f by (simp add: int_toString_def nat_div_distrib)
  have s: "int_toString (\<lfloor>x\<rfloor> mod 60) = show_nat (nat \<lfloor>x\<rfloor> mod 60)"
    using f by (simp add: int_toString_def nat_mod_distrib)
  have "nat \<lfloor>x\<rfloor> mod 60 < 100" by (rule less_trans [OF mod_less_divisor]) simp_all
  then show ?thesis
    using assms by (simp add: floor_div60 floor_js_rem60 m s pad2_show_nat)
qed

lemmas formatTime_eval =
  js_rem_def trunc_def int_toString_def padStart_def show_nat.simps digit_def

section \<open>Facts about the dispatcher\<close>

lemma js_includes_iff: "js_includes s t \<longleftrightarrow> (\<exists>ps ss. s = ps @ t @ ss)"
proof (induction s)
  case Nil
  then show ?case by simp
next
  case (Cons c cs)
  show ?case
  proof
    assume "js_includes (c # cs) t"
    then consider "startsWith (c # cs) t" | "js_includes cs t" by auto
    then show "\<exists>ps ss. c # cs = ps @ t @ ss"
    proof cases
      case 1
      then have "c # cs = [] @ t @ drop (length t) (c # cs)"
        by (metis startsWith_def append_Nil append_take_drop_id)
      then show ?thesis by blast
    next
      case 2
      with Cons.IH obtain ps ss where "cs = ps @ t @ ss" by blast
      then have "c # cs = (c # ps) @ t @ ss" by simp
      then show ?thesis by blast
    qed
  next
    assume "\<exists>ps ss. c # cs = ps @ t @ ss"
    then obtain ps ss where e: "c # cs = ps @ t @ ss" by blast
    show "js_includes (c # cs) t"
    proof (cases ps)
      case Nil
      with e have "startsWith (c # cs) t" by (simp add: startsWith_def)
      then show ?thesis by simp
    next
      case (Cons p ps')
      with e have "cs = ps' @ t @ ss" by simp
      with Cons.IH have "js_includes cs t" by blast
      then show ?thesis by simp
    qed
  qed
qed

lemmas titles_def = PROMPT_TOO_LONG_def BUDGET_EXCEEDED_def GENERIC_def

lemmas dispatch_eval =
  handleWebSocketMessage_def is_error_message_def startsWith_def handleErrorMessage_def
  substring_def trim_def is_whitespace_def classify_def appendError_def titles_def
  updateCostDisplay_def

lemmas toFixed_eval = toFixed_def show_nat.simps digit_def Let_def

lemma updateCostDisplay_messages:
  "messagesContainer (updateCostDisplay ci pg) = messagesContainer pg"
  by (simp add: updateCostDisplay_def Let_def split: option.splits)

lemma handlers_keep_ledger [simp]:
  "totalCost (appendError t b pg) = totalCost pg"
  "remainingBudget (appendError t b pg) = remainingBudget pg"
  "cost_warning (appendError t b pg) = cost_warning pg"
  "totalCost (appendMessage msg u ci af pg) = totalCost pg"
  "remainingBudget (appendMessage msg u ci af pg) = remainingBudget pg"
  "cost_warning (appendMessage msg u ci af pg) = cost_warning pg"
  "totalCost (handleImageMessage x pg) = totalCost pg"
  "remainingBudget (handleImageMessage x pg) = remainingBudget pg"
  "cost_warning (handleImageMessage x pg) = cost_warning pg"
  "totalCost (handleAudioMessage x pg) = totalCost pg"
  "remainingBudget (handleAudioMessage x pg) = remainingBudget pg"
  "cost_warning (handleAudioMessage x pg) = cost_warning pg"
  "totalCost (handleResearchMessage x pg) = totalCost pg"
  "remainingBudget (handleResearchMessage x pg) = remainingBudget pg"
  "cost_warning (handleResearchMessage x pg) = cost_warning pg"
  "totalCost (handleErrorMessage m pg) = totalCost pg"
  "remainingBudget (handleErrorMessage m pg) = remainingBudget pg"
  "cost_warning (handleErrorMessage m pg) = cost_warning pg"
  by (simp_all add: appendError_def appendMessage_def handleImageMessage_def
      handleAudioMessage_def handleResearchMessage_def handleErrorMessage_def Let_def)

lemma ledger_after_frame:
  "totalCost (handleWebSocketMessage data pg) = totalCost (updateCostDisplay (cost_info data) pg)"
  "remainingBudget (handleWebSocketMessage data pg) =
     remainingBudget (updateCostDisplay (cost_info data) pg)"
  "cost_warning (handleWebSocketMessage data pg) =
     cost_warning (updateCostDisplay (cost_info data) pg)"
  by (simp_all add: handleWebSocketMessage_def Let_def updateCostDisplay_def)

lemma ledger_after_update:
  "totalCost (updateCostDisplay (Some ci) pg) =
     (case total_cost ci of None \<Rightarrow> totalCost pg | Some t \<Rightarrow> toFixed t 3)"
  "remainingBudget (updateCostDisplay (Some ci) pg) =
     (case remaining_budget ci of None \<Rightarrow> remainingBudget pg | Some r \<Rightarrow> toFixed r 2)"
  "cost_warning (updateCostDisplay (Some ci) pg) =
     (case remaining_budget ci of None \<Rightarrow> cost_warning pg | Some r \<Rightarrow> r < 5)"
  by (simp_all add: updateCostDisplay_def Let_def LOW_BUDGET_THRESHOLD_def split: option.splits)

lemma digit_in_digits: "digit n \<in> digits"
proof -
  have "n mod 10 < length ''0123456789''" by simp
  then show ?thesis unfolding digit_def digits_def by (rule nth_mem)
qed

lemma show_nat_digits: "set (show_nat n) \<subseteq> digits"
proof (induction n rule: show_nat.induct)
  case (1 n)
  show ?case
  proof (cases "n < 10")
    case True
    then show ?thesis by (simp add: show_nat.simps [of n] digit_in_digits)
  next
    case False
    with 1 show ?thesis by (simp add: show_nat.simps [of n] digit_in_digits)
  qed
qed

lemma toFixed_shape:
  assumes "f \<noteq> 0"
  shows "\<exists>a b. toFixed x f = (if x < 0 then ''-'' else '''') @ a @ ''.'' @ b
           \<and> a \<noteq> [] \<and> length b = f \<and> set a \<subseteq> digits \<and> set b \<subseteq> digits"
proof -
  define m where "m = show_nat (nat \<lfloor>\<bar>x\<bar> * 10 ^ f + 1 / 2\<rfloor>)"
  define m1 where "m1 = (if length m \<le> f then replicate (f + 1 - length m) (CHR ''0'') @ m else m)"
  have z: "CHR ''0'' \<in> digits" by (simp add: digits_def)
  have d: "set m1 \<subseteq> digits"
    using show_nat_digits [of "nat \<lfloor>\<bar>x\<bar> * 10 ^ f + 1 / 2\<rfloor>"] z
    by (auto simp: m1_def m_def)
  have l: "f < length m1" by (auto simp: m1_def)
  have e: "toFixed x f = (if x < 0 then ''-'' else '''') @
             take (length m1 - f) m1 @ ''.'' @ drop (length m1 - f) m1"
    using assms by (simp add: toFixed_def Let_def m1_def m_def)
  have "take (length m1 - f) m1 \<noteq> []" using l by auto
  moreover have "length (drop (length m1 - f) m1) = f" using l by simp
  moreover have "set (take (length m1 - f) m1) \<subseteq> digits"
    using d set_take_subset [of "length m1 - f" m1] by blast
  moreover have "set (drop (length m1 - f) m1) \<subseteq> digits"
    using d set_drop_subset [of "length m1 - f" m1] by blast
  ultimately show ?thesis using e by blast
qed

lemma chips_cost_iff:
  "(\<exists>t. CostChip t \<in> set (createChipsContainer (Some ci) af)) \<longleftrightarrow>
     (\<exists>c. request_cost ci = Some c \<and> c \<noteq> 0)"
  by (cases "request_cost ci"; cases af)
    (simp_all add: createChipsContainer_def createCostChip_def createAgentFlowChip_def)

lemma chips_flow_iff:
  "(\<exists>b f. AgentFlowChip b f \<in> set (createChipsContainer ci af)) \<longleftrightarrow> af \<noteq> None"
  by (auto simp: createChipsContainer_def createCostChip_def createAgentFlowChip_def
      split: option.splits)

lemma chips_cost_value:
  "request_cost ci = Some c \<Longrightarrow> c \<noteq> 0 \<Longrightarrow>
     createChipsContainer (Some ci) af =
       CostChip (''$'' @ toFixed c 3) #
         (case af of None \<Rightarrow> [] | Some f \<Rightarrow> [AgentFlowChip True f])"
  by (simp add: createChipsContainer_def createCostChip_def createAgentFlowChip_def
      split: option.splits)

lemma handlers_extend:
  "\<exists>ns. messagesContainer (if b then handleImageMessage x pg else pg) =
     messagesContainer pg @ ns"
  "\<exists>ns. messagesContainer (if b then handleAudioMessage x pg else pg) =
     messagesContainer pg @ ns"
  "\<exists>ns. messagesContainer (if b then handleResearchMessage x pg else pg) =
     messagesContainer pg @ ns"
  by (simp_all add: handleImageMessage_def handleAudioMessage_def handleResearchMessage_def)

lemma bot_message_first:
  assumes "message data = Some m" and "m \<noteq> []" and "\<not> startsWith m ''Error:''"
  shows "\<exists>ns. messagesContainer (handleWebSocketMessage data pg) =
           messagesContainer pg @
             Message False m
               (if cost_info data \<noteq> None \<or> agent_flow data \<noteq> None
                then Some (createChipsContainer (cost_info data) (agent_flow data))
                else None) # ns"
proof -
  define pg2 where "pg2 = appendMessage m False (cost_info data) (agent_flow data)
     (updateCostDisplay (cost_info data) pg)"
  define pg3 where "pg3 = (if truthy (base64_image data)
     then handleImageMessage (the (base64_image data)) pg2 else pg2)"
  define pg4 where "pg4 = (if truthy (base64_audio data)
     then handleAudioMessage (the (base64_audio data)) pg3 else pg3)"
  define pg5 where "pg5 = (if truthy (research_result data)
     then handleResearchMessage (the (research_result data)) pg4 else pg4)"
  have r: "handleWebSocketMessage data pg = pg5"
    using assms
    by (simp add: handleWebSocketMessage_def is_error_message_def Let_def pg5_def pg4_def
        pg3_def pg2_def updateCostDisplay_def)
  have 2: "messagesContainer pg2 = messagesContainer pg @
      [Message False m
         (if cost_info data \<noteq> None \<or> agent_flow data \<noteq> None
          then Some (createChipsContainer (cost_info data) (agent_flow data)) else None)]"
    by (simp add: pg2_def appendMessage_def updateCostDisplay_messages)
  obtain n3 where 3: "messagesContainer pg3 = messagesContainer pg2 @ n3"
    unfolding pg3_def using handlers_extend(1) by blast
  obtain n4 where 4: "messagesContainer pg4 = messagesContainer pg3 @ n4"
    unfolding pg4_def using handlers_extend(2) by blast
  obtain n5 where 5: "messagesContainer pg5 = messagesContainer pg4 @ n5"
    unfolding pg5_def using handlers_extend(3) by blast
  show ?thesis unfolding r 5 4 3 2 by simp
qed

section \<open>Facts about the audio player\<close>

lemma reset_effect:
  assumes "currentAudio mc = Some c"
  shows "currentAudio (snd (resetCurrentAudio mc)) = Some c"
    and "audios (snd (resetCurrentAudio mc)) =
           (audios mc)(c := (audios mc c)\<lparr>paused := True, currentTime := 0\<rparr>)"
  using assms
  by (simp_all add: resetCurrentAudio_def set_currentTime_def resetAudioButton_def Let_def
      split: option.splits)

lemma reset_outcome:
  assumes "currentAudio mc = Some c"
  shows "fst (resetCurrentAudio mc) =
           (if parent_button (audios mc c) = None then Some TypeError else None)"
  using assms
  by (simp add: resetCurrentAudio_def set_currentTime_def Let_def split: option.splits)

lemma click_same:
  assumes "currentAudio mc = None \<or> currentAudio mc = Some a"
  shows "playButton_click a mc =
           (None, if paused (audios mc a) then playAudio a mc else pauseAudio a mc)"
  using assms by (auto simp: playButton_click_def)

lemma click_other:
  assumes "currentAudio mc = Some c" and "c \<noteq> a"
  shows "playButton_click a mc =
           (case fst (resetCurrentAudio mc) of
              Some err \<Rightarrow> (Some err, snd (resetCurrentAudio mc))
            | None \<Rightarrow> (None, if paused (audios mc a)
                              then playAudio a (snd (resetCurrentAudio mc))
                              else pauseAudio a (snd (resetCurrentAudio mc))))"
proof -
  have "paused (audios (snd (resetCurrentAudio mc)) a) = paused (audios mc a)"
    using assms by (simp add: reset_effect(2))
  then show ?thesis
    using assms
    by (cases "resetCurrentAudio mc") (simp add: playButton_click_def split: option.splits)
qed

lemma all_paused_single_active:
  "(\<And>i. paused (audios mc i)) \<Longrightarrow> single_active mc"
  by (simp add: single_active_def)

lemma initial_single_active: "single_active initial_component"
  by (simp add: single_active_def initial_component_def new_audio_def)

lemma single_active_others:
  assumes "single_active mc" and "currentAudio mc = Some c" and "i \<noteq> c"
  shows "paused (audios mc i)"
  using assms unfolding single_active_def by (metis option.inject)

lemma single_active_click:
  assumes "single_active mc"
  shows "single_active (snd (playButton_click a mc))"
proof (cases "currentAudio mc = None \<or> currentAudio mc = Some a")
  case True
  show ?thesis
  proof (cases "paused (audios mc a)")
    case True
    have "snd (playButton_click a mc) = playAudio a mc"
      using click_same [OF \<open>currentAudio mc = None \<or> currentAudio mc = Some a\<close>] True by simp
    moreover have "paused (audios mc i)" if "i \<noteq> a" for i
      using assms \<open>currentAudio mc = None \<or> currentAudio mc = Some a\<close> that
      unfolding single_active_def by auto
    ultimately show ?thesis by (simp add: single_active_def playAudio_def)
  next
    case False
    have "snd (playButton_click a mc) = pauseAudio a mc"
      using click_same [OF \<open>currentAudio mc = None \<or> currentAudio mc = Some a\<close>] False by simp
    moreover from assms False have "currentAudio mc = Some a"
      by (simp add: single_active_def)
    ultimately show ?thesis
      using assms by (simp add: single_active_def pauseAudio_def resetAudioButton_def)
  qed
next
  case False
  then obtain c where c: "currentAudio mc = Some c" "c \<noteq> a" by auto
  have allp: "paused (audios (snd (resetCurrentAudio mc)) i)" for i
    using single_active_others [OF assms c(1), of i] by (simp add: reset_effect(2) [OF c(1)])
  from assms c have pa: "paused (audios mc a)"
    by (auto intro: single_active_others)
  show ?thesis
  proof (cases "fst (resetCurrentAudio mc)")
    case None
    with pa have "snd (playButton_click a mc) = playAudio a (snd (resetCurrentAudio mc))"
      by (simp add: click_other [OF c])
    with allp show ?thesis by (simp add: single_active_def playAudio_def)
  next
    case (Some err)
    then have "snd (playButton_click a mc) = snd (resetCurrentAudio mc)"
      by (simp add: click_other [OF c])
    with allp show ?thesis by (simp add: all_paused_single_active)
  qed
qed

lemma single_active_step:
  assumes "single_active mc"
  shows "single_active (step ev mc)"
proof (cases ev)
  case (Click a)
  with assms show ?thesis by (simp add: single_active_click)
next
  case (Ended a)
  show ?thesis
  proof (cases "paused (audios mc a)")
    case True
    with assms Ended show ?thesis by simp
  next
    case False
    with assms have "currentAudio mc = Some a" by (simp add: single_active_def)
    then have "paused (audios mc i)" if "i \<noteq> a" for i
      using single_active_others [OF assms _ that] by simp
    then have "paused (audios (audio_ended a mc) i)" for i
      by (simp add: audio_ended_def resetAudioButton_def)
    with Ended False show ?thesis by (simp add: all_paused_single_active)
  qed
qed

lemma single_active_run:
  "single_active mc \<Longrightarrow> single_active (run evs mc)"
  by (induction evs arbitrary: mc) (simp_all add: single_active_step)

lemma single_active_unique:
  assumes "single_active mc" and "\<not> paused (audios mc i)" and "\<not> paused (audios mc j)"
  shows "i = j"
  using assms unfolding single_active_def by (metis option.inject)

lemma click_resets_other:
  assumes "currentAudio mc = Some c" and "c \<noteq> a"
  shows "paused (audios (snd (playButton_click a mc)) c)
         \<and> currentTime (audios (snd (playButton_click a mc)) c) = 0"
  using assms
  by (simp add: click_other [OF assms] reset_effect(2) [OF assms(1)] playAudio_def
      pauseAudio_def resetAudioButton_def split: option.splits)

text \<open>
  For a player built by \<open>createAudioPlayer\<close> the current element has no parent: a click
  on another player's button pauses and rewinds the current element, then the lookup of
  its button throws, and the handler ends there without starting the clicked player.
\<close>

lemma click_detached:
  assumes "currentAudio mc = Some c" and "c \<noteq> a" and "parent_button (audios mc c) = None"
  shows "playButton_click a mc =
           (Some TypeError,
            mc\<lparr>audios := (audios mc)(c := (audios mc c)\<lparr>paused := True, currentTime := 0\<rparr>)\<rparr>)"
proof -
  have "fst (resetCurrentAudio mc) = Some TypeError"
    using assms by (simp add: reset_outcome)
  moreover have "snd (resetCurrentAudio mc) =
      mc\<lparr>audios := (audios mc)(c := (audios mc c)\<lparr>paused := True, currentTime := 0\<rparr>)\<rparr>"
    using assms
    by (simp add: resetCurrentAudio_def set_currentTime_def Let_def)
  ultimately show ?thesis by (simp add: click_other [OF assms(1,2)])
qed

section \<open>Facts about base64 and the chunked conversion\<close>

lemma div_step: "c < m \<Longrightarrow> (x * m + c) div m = (x::nat)"
  by simp

lemma mod_step: "c < m \<Longrightarrow> (x * m + c) mod m = (c::nat)"
  by simp

lemma s01: "n div 262144 * 64 + n div 4096 mod 64 = (n::nat) div 4096"
proof -
  have "n div 262144 = n div 4096 div 64" by (simp add: div_mult2_eq [symmetric])
  then show ?thesis by (simp only: div_mult_mod_eq)
qed

lemma s012: "(n div 262144 * 64 + n div 4096 mod 64) * 64 + n div 64 mod 64 = (n::nat) div 64"
proof -
  have a: "n div 4096 = n div 64 div 64" by (simp add: div_mult2_eq [symmetric])
  have "(n div 262144 * 64 + n div 4096 mod 64) * 64 + n div 64 mod 64
        = n div 4096 * 64 + n div 64 mod 64"
    by (simp only: s01)
  also have "\<dots> = n div 64 div 64 * 64 + n div 64 mod 64" by (simp only: a)
  also have "\<dots> = n div 64" by (rule div_mult_mod_eq)
  finally show ?thesis .
qed

lemma s0123:
  "((n div 262144 * 64 + n div 4096 mod 64) * 64 + n div 64 mod 64) * 64 + n mod 64 = (n::nat)"
  by (simp only: s012 div_mult_mod_eq)

lemma bytes3:
  assumes "a < 256" "b < 256" "c < 256"
  shows "(a * 65536 + b * 256 + c) div 65536 = (a::nat)"
    and "(a * 65536 + b * 256 + c) div 256 mod 256 = b"
    and "(a * 65536 + b * 256 + c) mod 256 = c"
proof -
  have e: "a * 65536 + b * 256 + c = (a * 256 + b) * 256 + c" by simp
  have d: "(a * 65536 + b * 256 + c) div 256 = a * 256 + b"
    unfolding e using assms(3) by (rule div_step)
  show "(a * 65536 + b * 256 + c) div 256 mod 256 = b"
    unfolding d using assms(2) by (rule mod_step)
  show "(a * 65536 + b * 256 + c) mod 256 = c"
    unfolding e using assms(3) by (rule mod_step)
  have "(a * 65536 + b * 256 + c) div 65536 = (a * 65536 + b * 256 + c) div 256 div 256"
    by (simp add: div_mult2_eq [symmetric])
  also have "\<dots> = a" unfolding d using assms(2) by (rule div_step)
  finally show "(a * 65536 + b * 256 + c) div 65536 = a" .
qed

lemma bytes2:
  assumes "a < 256" "b < 256"
  shows "(a * 65536 + b * 256) div 64 div 4 div 256 = (a::nat)"
    and "(a * 65536 + b * 256) div 64 div 4 mod 256 = b"
proof -
  have "(a * 65536 + b * 256) div 64 div 4 = (a * 65536 + b * 256) div 256"
    by (simp add: div_mult2_eq [symmetric])
  also have "a * 65536 + b * 256 = (a * 256 + b) * 256" by simp
  finally have d: "(a * 65536 + b * 256) div 64 div 4 = a * 256 + b" by simp
  show "(a * 65536 + b * 256) div 64 div 4 div 256 = a"
    unfolding d using assms(2) by (rule div_step)
  show "(a * 65536 + b * 256) div 64 div 4 mod 256 = b"
    unfolding d using assms(2) by (rule mod_step)
qed

lemma bytes1: "(a * 65536) div 4096 div 16 = (a::nat)"
proof -
  have "(a * 65536) div 4096 div 16 = (a * 65536) div 65536"
    by (simp add: div_mult2_eq [symmetric])
  then show ?thesis by simp
qed

lemma unat_byte: "unat (a :: byte) < 256"
  using unsigned_less [of a, where ?'a = nat] by simp

lemma decode_encode_sextets: "decode_sextets (encode_sextets x) = map unat x"
proof (induction x rule: encode_sextets.induct)
  case (1 a b c rest)
  define n where "n = unat a * 65536 + unat b * 256 + unat c"
  have "decode_sextets (encode_sextets (a # b # c # rest)) =
      [n div 65536, n div 256 mod 256, n mod 256] @ decode_sextets (encode_sextets rest)"
    by (simp only: encode_sextets.simps decode_sextets.simps Let_def append_Cons append_Nil
        s0123 n_def)
  also have "\<dots> = [unat a, unat b, unat c] @ map unat rest"
    unfolding n_def by (simp only: bytes3 [OF unat_byte unat_byte unat_byte] 1)
  finally show ?case by simp
next
  case (2 a b)
  define n where "n = unat a * 65536 + unat b * 256"
  have "decode_sextets (encode_sextets [a, b]) = [n div 64 div 4 div 256, n div 64 div 4 mod 256]"
    by (simp only: encode_sextets.simps decode_sextets.simps Let_def s012 n_def)
  then show ?case
    unfolding n_def by (simp only: bytes2 [OF unat_byte unat_byte]) simp
next
  case (3 a)
  have "decode_sextets (encode_sextets [a]) = [unat a * 65536 div 4096 div 16]"
    by (simp only: encode_sextets.simps decode_sextets.simps Let_def s01)
  then show ?case by (simp only: bytes1) simp
next
  case 4
  show ?case by simp
qed

lemma encode_sextets_bound: "s \<in> set (encode_sextets x) \<Longrightarrow> s < 64"
proof (induction x arbitrary: s rule: encode_sextets.induct)
  case (1 a b c rest)
  have "unat a * 65536 + unat b * 256 + unat c < 16777216"
    using unat_byte [of a] unat_byte [of b] unat_byte [of c] by linarith
  then have "(unat a * 65536 + unat b * 256 + unat c) div 262144 < 64" by simp
  with 1 show ?case by (auto simp: Let_def)
next
  case (2 a b)
  have "unat a * 65536 + unat b * 256 < 16777216"
    using unat_byte [of a] unat_byte [of b] by linarith
  then have "(unat a * 65536 + unat b * 256) div 262144 < 64" by simp
  with 2 show ?case by (auto simp: Let_def)
next
  case (3 a)
  have "unat a * 65536 < 16777216" using unat_byte [of a] by linarith
  then have "(unat a * 65536) div 262144 < 64" by simp
  with 3 show ?case by (auto simp: Let_def)
next
  case 4
  then show ?case by simp
qed

lemma length_encode_sextets:
  "length (encode_sextets x) =
     4 * (length x div 3) + (if length x mod 3 = 0 then 0 else length x mod 3 + 1)"
proof (induction x rule: encode_sextets.induct)
  case (1 a b c rest)
  have "length (a # b # c # rest) = length rest + 3" by simp
  then have "length (a # b # c # rest) div 3 = length rest div 3 + 1"
    and "length (a # b # c # rest) mod 3 = length rest mod 3"
    by simp_all
  with 1 show ?case by (simp add: Let_def)
qed (simp_all add: Let_def)

lemma length_encode_sextets_mod4:
  "length (encode_sextets x) mod 4 = (if length x mod 3 = 0 then 0 else length x mod 3 + 1)"
proof -
  have "length x mod 3 < 3" by simp
  then have "(if length x mod 3 = 0 then 0 else length x mod 3 + 1) < 4" by simp
  then have "(4 * (length x div 3) + (if length x mod 3 = 0 then 0 else length x mod 3 + 1)) mod 4
      = (if length x mod 3 = 0 then 0 else length x mod 3 + 1)"
    by (simp only: mod_mult_self4 mod_less)
  then show ?thesis by (simp only: length_encode_sextets)
qed

lemma index_of_nth:
  "distinct xs \<Longrightarrow> i < length xs \<Longrightarrow> index_of (xs ! i) xs = Some i"
proof (induction xs arbitrary: i)
  case Nil
  then show ?case by simp
next
  case (Cons y ys)
  show ?case
  proof (cases i)
    case 0
    then show ?thesis by simp
  next
    case (Suc j)
    with Cons.prems have "j < length ys" and "ys ! j \<noteq> y" by auto
    with Cons Suc show ?thesis by simp
  qed
qed

lemma b64_alphabet_distinct: "distinct b64_alphabet"
  by (simp add: b64_alphabet_def)

lemma b64_alphabet_length: "length b64_alphabet = 64"
  by (simp add: b64_alphabet_def)

lemma those_index_of:
  "(\<And>s. s \<in> set ss \<Longrightarrow> s < 64) \<Longrightarrow>
     those (map (\<lambda>c. index_of c b64_alphabet) (map (\<lambda>s. b64_alphabet ! s) ss)) = Some ss"
proof (induction ss)
  case Nil
  then show ?case by simp
next
  case (Cons s ss)
  then have "index_of (b64_alphabet ! s) b64_alphabet = Some s"
    by (simp add: index_of_nth b64_alphabet_distinct b64_alphabet_length)
  with Cons show ?case by simp
qed

lemma b64_alphabet_chars:
  "c \<in> set b64_alphabet \<Longrightarrow> \<not> is_ascii_whitespace c \<and> c \<noteq> CHR ''=''"
  by (auto simp: b64_alphabet_def is_ascii_whitespace_def)

lemma sextet_chars:
  assumes "c \<in> set (map (\<lambda>s. b64_alphabet ! s) (encode_sextets x))"
  shows "c \<in> set b64_alphabet"
proof -
  from assms obtain s where "s \<in> set (encode_sextets x)" and c: "c = b64_alphabet ! s" by auto
  then have "s < length b64_alphabet"
    by (simp add: encode_sextets_bound b64_alphabet_length)
  then show ?thesis unfolding c by (rule nth_mem)
qed

lemma filter_b64_encode:
  "filter (\<lambda>c. \<not> is_ascii_whitespace c) (b64_encode x) = b64_encode x"
proof -
  have "\<not> is_ascii_whitespace c" if "c \<in> set (b64_encode x)" for c
  proof -
    from that consider "c \<in> set (map (\<lambda>s. b64_alphabet ! s) (encode_sextets x))"
      | "c = CHR ''=''"
      by (auto simp: b64_encode_def)
    then show ?thesis
    proof cases
      case 1
      then show ?thesis using sextet_chars b64_alphabet_chars by blast
    next
      case 2
      then show ?thesis by (simp add: is_ascii_whitespace_def)
    qed
  qed
  then show ?thesis by (simp add: filter_id_conv)
qed

lemma drop_padding_rev_none:
  "(\<And>c. c \<in> set e \<Longrightarrow> c \<noteq> CHR ''='') \<Longrightarrow> drop_padding_rev e = e"
  by (induction e rule: drop_padding_rev.induct) auto

lemma drop_padding_rev_one:
  "(\<And>c. c \<in> set e \<Longrightarrow> c \<noteq> CHR ''='') \<Longrightarrow> drop_padding_rev (CHR ''='' # e) = e"
  by (cases e) auto

lemma drop_padding_rev_two:
  "drop_padding_rev (CHR ''='' # CHR ''='' # e) = e"
  by simp

lemma strip_padding_encode:
  "strip_padding (b64_encode x) = map (\<lambda>s. b64_alphabet ! s) (encode_sextets x)"
proof -
  let ?e = "map (\<lambda>s. b64_alphabet ! s) (encode_sextets x)"
  let ?p = "(3 - length x mod 3) mod 3"
  have ne: "c \<noteq> CHR ''=''" if "c \<in> set (rev ?e)" for c
    using that sextet_chars [of c x] b64_alphabet_chars [of c] by simp
  have "length x mod 3 = 0 \<or> length x mod 3 = 1 \<or> length x mod 3 = 2" by arith
  then have "(length (encode_sextets x) mod 4 + ?p) mod 4 = 0"
    by (auto simp: length_encode_sextets_mod4)
  then have len: "length (b64_encode x) mod 4 = 0"
    by (simp add: b64_encode_def mod_add_left_eq)
  have p: "?p = 0 \<or> ?p = 1 \<or> ?p = 2" by arith
  have r: "rev (b64_encode x) = replicate ?p (CHR ''='') @ rev ?e"
    by (simp add: b64_encode_def)
  from p have "drop_padding_rev (rev (b64_encode x)) = rev ?e"
  proof (elim disjE)
    assume "?p = 0"
    moreover have "drop_padding_rev (rev ?e) = rev ?e"
      by (rule drop_padding_rev_none) (rule ne)
    ultimately show ?thesis unfolding r by simp
  next
    assume "?p = 1"
    moreover have "drop_padding_rev (CHR ''='' # rev ?e) = rev ?e"
      by (rule drop_padding_rev_one) (rule ne)
    ultimately show ?thesis unfolding r by simp
  next
    assume "?p = 2"
    then have "replicate ?p (CHR ''='') = [CHR ''='', CHR ''='']"
      by (simp add: numeral_2_eq_2)
    then show ?thesis unfolding r by (simp add: drop_padding_rev_two)
  qed
  with len show ?thesis by (simp add: strip_padding_def)
qed

lemma atob_b64_encode: "atob (b64_encode x) = Inr (binary_string x)"
proof -
  let ?e = "map (\<lambda>s. b64_alphabet ! s) (encode_sextets x)"
  have l: "length ?e mod 4 \<noteq> 1"
    by (simp add: length_encode_sextets_mod4)
  have t: "those (map (\<lambda>c. index_of c b64_alphabet) ?e) = Some (encode_sextets x)"
    by (rule those_index_of) (rule encode_sextets_bound)
  have "atob (b64_encode x) = Inr (map char_of (decode_sextets (encode_sextets x)))"
    using l by (simp add: atob_def filter_b64_encode strip_padding_encode t del: map_map)
  then show ?thesis
    by (simp add: decode_encode_sextets binary_string_def)
qed

lemma byte_roundtrip: "Uint8Array (map charCodeAt (binary_string x)) = x"
proof -
  have "word_of_nat (of_char (char_of (unat b))) = b" for b :: byte
  proof -
    have "unat b mod 256 = unat b" using unat_byte [of b] by simp
    then show ?thesis by simp
  qed
  then show ?thesis
    by (simp add: Uint8Array_def charCodeAt_def binary_string_def comp_def)
qed

lemma Uint8Array_append:
  "Uint8Array (map charCodeAt (xs @ ys)) =
     Uint8Array (map charCodeAt xs) @ Uint8Array (map charCodeAt ys)"
  by (simp add: Uint8Array_def)

lemma js_slice_chunk:
  "js_slice s offset (offset + AUDIO_CHUNK_SIZE) = take 512 (drop offset s)"
  by (simp add: js_slice_def AUDIO_CHUNK_SIZE_def)

lemma byteArrays_loop_concat:
  "concat (byteArrays_loop s offset acc) =
     concat acc @ Uint8Array (map charCodeAt (drop offset s))"
proof (induction s offset acc rule: byteArrays_loop.induct)
  case (1 s offset acc)
  show ?case
  proof (cases "offset < length s")
    case True
    have d: "drop (offset + AUDIO_CHUNK_SIZE) s = drop 512 (drop offset s)"
      by (simp add: AUDIO_CHUNK_SIZE_def add.commute)
    have "concat (byteArrays_loop s offset acc) =
        concat acc @ Uint8Array (map charCodeAt (take 512 (drop offset s)))
          @ Uint8Array (map charCodeAt (drop 512 (drop offset s)))"
      using True 1 [OF True refl refl refl]
      by (simp add: byteArrays_loop.simps [of s offset acc] js_slice_chunk d)
    also have "\<dots> = concat acc @ Uint8Array (map charCodeAt (drop offset s))"
      by (simp only: Uint8Array_append [symmetric] append_take_drop_id)
    finally show ?thesis .
  next
    case False
    then show ?thesis
      by (simp add: byteArrays_loop.simps [of s offset acc] Uint8Array_def)
  qed
qed

lemma chunk_count_step:
  assumes "0 < (d::nat)"
  shows "(d + 511) div 512 = Suc ((d - 512 + 511) div 512)"
proof (cases "d \<le> 512")
  case True
  with assms have "(d + 511) div 512 = 1"
    by (intro div_nat_eqI) simp_all
  with True show ?thesis by simp
next
  case False
  then obtain e where "d = e + 512" using le_Suc_ex [of 512 d] by (auto simp: add.commute)
  then show ?thesis by simp
qed

lemma byteArrays_loop_chunks:
  "byteArrays_loop s offset acc =
     acc @ map (\<lambda>k. Uint8Array (map charCodeAt (take 512 (drop (offset + k * 512) s))))
             [0..<(length s - offset + 511) div 512]"
proof (induction s offset acc rule: byteArrays_loop.induct)
  case (1 s offset acc)
  let ?f = "\<lambda>off k. Uint8Array (map charCodeAt (take 512 (drop (off + k * 512) s)))"
  show ?case
  proof (cases "offset < length s")
    case True
    define m where "m = (length s - (offset + 512) + 511) div 512"
    from True have "(length s - offset + 511) div 512 = Suc ((length s - offset - 512 + 511) div 512)"
      by (intro chunk_count_step) simp
    then have c: "(length s - offset + 511) div 512 = Suc m"
      by (simp add: m_def)
    have "byteArrays_loop s offset acc =
        (acc @ [?f offset 0]) @ map (?f (offset + 512)) [0..<m]"
      using True 1 [OF True refl refl refl]
      by (simp add: byteArrays_loop.simps [of s offset acc] js_slice_def m_def
          AUDIO_CHUNK_SIZE_def)
    also have "map (?f (offset + 512)) [0..<m] = map (?f offset) (map Suc [0..<m])"
      by (simp add: add.assoc)
    also have "(acc @ [?f offset 0]) @ map (?f offset) (map Suc [0..<m]) =
        acc @ map (?f offset) (0 # map Suc [0..<m])"
      by simp
    also have "0 # map Suc [0..<m] = [0..<Suc m]"
      by (simp only: map_Suc_upt upt_conv_Cons [of 0 "Suc m"] zero_less_Suc if_True)
    finally show ?thesis by (simp only: c)
  next
    case False
    then have "(length s - offset + 511) div 512 = 0" by simp
    with False show ?thesis
      by (simp add: byteArrays_loop.simps [of s offset acc])
  qed
qed

lemma b64_encode_Man: "b64_encode [77, 97, 110] = ''TWFu''"
  by (simp add: b64_encode_def b64_alphabet_def)

section \<open>Claims\<close>

text \<open>
  C1, as the specification states it, fails: a frame with an error message and an
  image gets no image node.
\<close>

theorem C1_error_frame_counterexample:
  "GeneratedImage ''iVBORw=='' \<notin> set (messagesContainer
     (handleWebSocketMessage
        (empty_frame\<lparr>message := Some ''Error: budget exceeded'',
                      base64_image := Some ''iVBORw==''\<rparr>) initial_page))"
  by (simp add: dispatch_eval empty_frame_def initial_page_def)

text \<open>
  C1, amended. For a frame whose message begins with \<open>Error:\<close> the dispatcher updates
  the ledger from \<open>cost_info\<close>, appends one error card and returns: whatever the
  frame carries as \<open>base64_image\<close>, \<open>base64_audio\<close> or \<open>research_result\<close>, the page is
  the one after the ledger update with that one card appended.
\<close>

theorem C1_error_frame_stops:
  assumes "message data = Some m" and "startsWith m ''Error:''"
  shows "\<exists>title body.
           handleWebSocketMessage data pg =
             (updateCostDisplay (cost_info data) pg)
               \<lparr>messagesContainer := messagesContainer pg @ [ErrorCard title body]\<rparr>"
proof -
  have u: "(if cost_info data \<noteq> None then updateCostDisplay (cost_info data) pg else pg)
        = updateCostDisplay (cost_info data) pg"
    by (simp add: updateCostDisplay_def)
  from assms have e: "is_error_message (message data)"
    by (simp add: is_error_message_def)
  have "handleWebSocketMessage data pg =
          handleErrorMessage m (updateCostDisplay (cost_info data) pg)"
    using assms(1) e u by (simp add: handleWebSocketMessage_def)
  then have "handleWebSocketMessage data pg =
      (updateCostDisplay (cost_info data) pg)
        \<lparr>messagesContainer := messagesContainer pg @
           [ErrorCard (classify (trim (substring m 7))) (trim (substring m 7))]\<rparr>"
    by (simp add: handleErrorMessage_def appendError_def updateCostDisplay_messages Let_def)
  then show ?thesis by blast
qed

theorem C1_error_frame_stops_witness:
  "message error_frame = Some ''Error: budget exceeded''
   \<and> startsWith ''Error: budget exceeded'' ''Error:''
   \<and> (\<exists>title body. handleWebSocketMessage error_frame initial_page =
         \<lparr>messagesContainer = [ErrorCard title body],
          totalCost = ''25.000'', remainingBudget = ''0.00'', cost_warning = True\<rparr>)"
proof -
  have m: "message error_frame = Some ''Error: budget exceeded''"
    by (simp add: error_frame_def empty_frame_def)
  have s: "startsWith ''Error: budget exceeded'' ''Error:''"
    by (simp add: startsWith_def)
  have t: "toFixed 25 3 = ''25.000''" "toFixed 0 2 = ''0.00''"
    by (simp_all add: toFixed_eval)
  have u: "updateCostDisplay (cost_info error_frame) initial_page =
       \<lparr>messagesContainer = [], totalCost = ''25.000'', remainingBudget = ''0.00'',
        cost_warning = True\<rparr>"
    by (simp add: updateCostDisplay_def error_frame_def empty_frame_def initial_page_def
        t LOW_BUDGET_THRESHOLD_def)
  from C1_error_frame_stops [OF m s, of initial_page]
  obtain title body where "handleWebSocketMessage error_frame initial_page =
      (updateCostDisplay (cost_info error_frame) initial_page)
        \<lparr>messagesContainer := messagesContainer initial_page @ [ErrorCard title body]\<rparr>"
    by blast
  then have "handleWebSocketMessage error_frame initial_page =
         \<lparr>messagesContainer = [ErrorCard title body],
          totalCost = ''25.000'', remainingBudget = ''0.00'', cost_warning = True\<rparr>"
    by (simp only: u) (simp add: initial_page_def)
  with m s show ?thesis by blast
qed

text \<open>
  C2. The frame whose message is \<open>Error:abc\<close> passes the test \<open>startsWith("Error:")\<close>
  and gets one error card, whose body is \<open>bc\<close>: \<open>substring(7)\<close> removes one character
  more than the six of the prefix, where stripping the prefix and trimming gives
  \<open>abc\<close>. The frame of the scenario, \<open>Error: Prompt must be length 10\<close>, gets the card
  titled \<open>Prompt Too Long\<close> with the body \<open>Prompt must be length 10\<close>.
\<close>

theorem C2_error_body_loses_character:
  "messagesContainer
     (handleWebSocketMessage (empty_frame\<lparr>message := Some ''Error:abc''\<rparr>) initial_page)
     = [ErrorCard ''Error'' ''bc'']
   \<and> trim (substring ''Error:abc'' (length ''Error:'')) = ''abc''
   \<and> messagesContainer
     (handleWebSocketMessage
        (empty_frame\<lparr>message := Some ''Error: Prompt must be length 10''\<rparr>) initial_page)
     = [ErrorCard ''Prompt Too Long'' ''Prompt must be length 10'']"
  by (simp add: dispatch_eval empty_frame_def initial_page_def)

text \<open>
  C3. From a state in which every playing element is the current one (as at the
  start, where none plays), after any sequence of play-button clicks and clip ends at
  most one element is playing. In every state so reached, a click on the play button of
  a player other than the current one leaves the current element paused at position 0.
\<close>

theorem C3_single_playback:
  assumes "single_active mc"
  shows "(\<forall>i j. \<not> paused (audios (run evs mc) i) \<and> \<not> paused (audios (run evs mc) j)
            \<longrightarrow> i = j)
         \<and> (currentAudio (run evs mc) = Some c \<and> c \<noteq> a \<longrightarrow>
              paused (audios (step (Click a) (run evs mc)) c)
              \<and> currentTime (audios (step (Click a) (run evs mc)) c) = 0)"
proof -
  from assms have "single_active (run evs mc)" by (rule single_active_run)
  then have "\<forall>i j. \<not> paused (audios (run evs mc) i) \<and> \<not> paused (audios (run evs mc) j)
            \<longrightarrow> i = j"
    using single_active_unique by blast
  moreover have "currentAudio (run evs mc) = Some c \<and> c \<noteq> a \<longrightarrow>
              paused (audios (step (Click a) (run evs mc)) c)
              \<and> currentTime (audios (step (Click a) (run evs mc)) c) = 0"
    using click_resets_other [of "run evs mc" c a] by simp
  ultimately show ?thesis by (intro conjI)
qed


theorem C3_single_playback_witness:
  "single_active playing_component
   \<and> \<not> paused (audios (run [] playing_component) 0)
   \<and> currentAudio (run [] playing_component) = Some 0 \<and> (0::nat) \<noteq> 1
   \<and> currentTime (audios (run [] playing_component) 0) = 25 / 2
   \<and> paused (audios (step (Click 1) (run [] playing_component)) 0)
   \<and> currentTime (audios (step (Click 1) (run [] playing_component)) 0) = 0
   \<and> \<not> paused (audios (run [Ended 0, Click 1] playing_component) 1)
   \<and> paused (audios (run [Ended 0, Click 1] playing_component) 0)"
proof -
  have s: "single_active playing_component"
    by (simp add: single_active_def playing_component_def new_audio_def)
  have h: "\<not> paused (audios (run [] playing_component) 0)"
    "currentAudio (run [] playing_component) = Some 0"
    "currentTime (audios (run [] playing_component) 0) = 25 / 2"
    by (simp_all add: playing_component_def)
  have p: "\<not> paused (audios (run [Ended 0, Click 1] playing_component) 1)"
    by (simp add: playing_component_def new_audio_def audio_ended_def resetAudioButton_def
        click_same playAudio_def)
  from C3_single_playback [OF s, of "[Ended 0, Click 1]"] p
  have "\<not> paused (audios (run [Ended 0, Click 1] playing_component) j) \<longrightarrow> 1 = j" for j
    by blast
  then have q: "paused (audios (run [Ended 0, Click 1] playing_component) 0)"
    by fastforce
  from C3_single_playback [OF s, of "[]" 0 1] h have
    "paused (audios (step (Click 1) (run [] playing_component)) 0)
     \<and> currentTime (audios (step (Click 1) (run [] playing_component)) 0) = 0"
    by simp
  with s h p q show ?thesis by simp
qed

text \<open>
  C4. \<open>base64ToBlob\<close> is a left inverse of base64 encoding: for every byte sequence
  \<open>x\<close>, of any length, decoding the encoding of \<open>x\<close> gives a blob whose bytes are \<open>x\<close>.
  The decoder works on the string that \<open>atob\<close> returns in slices of 512 characters:
  a string of \<open>n\<close> characters gives \<open>\<lceil>n / 512\<rceil>\<close> byte arrays, the \<open>k\<close>-th holds the codes
  of the characters from \<open>512 k\<close> up to \<open>512 k + 512\<close>, and the blob is their
  concatenation in order, which is the codes of all the characters.
\<close>

theorem C4_base64ToBlob_roundtrip:
  "base64ToBlob (b64_encode x) t = Inr \<lparr>blob_bytes = x, blob_type = t\<rparr>
   \<and> atob (b64_encode x) = Inr (binary_string x)
   \<and> concat (byteArrays_loop bc 0 []) = Uint8Array (map charCodeAt bc)
   \<and> length (byteArrays_loop bc 0 []) = (length bc + 511) div 512
   \<and> (\<forall>k < length (byteArrays_loop bc 0 []).
        byteArrays_loop bc 0 [] ! k =
          Uint8Array (map charCodeAt (js_slice bc (k * 512) (k * 512 + 512))))"
proof -
  have 1: "concat (byteArrays_loop bc 0 []) = Uint8Array (map charCodeAt bc)" for bc
    by (simp add: byteArrays_loop_concat)
  have 2: "base64ToBlob (b64_encode x) t = Inr \<lparr>blob_bytes = x, blob_type = t\<rparr>"
    by (simp add: base64ToBlob_def atob_b64_encode 1 byte_roundtrip)
  have 3: "length (byteArrays_loop bc 0 []) = (length bc + 511) div 512"
    by (simp add: byteArrays_loop_chunks)
  have 4: "\<forall>k < length (byteArrays_loop bc 0 []).
        byteArrays_loop bc 0 [] ! k =
          Uint8Array (map charCodeAt (js_slice bc (k * 512) (k * 512 + 512)))"
    by (simp add: byteArrays_loop_chunks js_slice_def)
  from 2 atob_b64_encode [of x] 1 [of bc] 3 4 show ?thesis by (intro conjI)
qed

theorem C4_base64ToBlob_roundtrip_witness:
  "base64ToBlob ''TWFu'' ''audio/mp3'' =
     Inr \<lparr>blob_bytes = [77, 97, 110], blob_type = ''audio/mp3''\<rparr>
   \<and> length (byteArrays_loop (replicate 513 (CHR ''a'')) 0 []) = 2
   \<and> byteArrays_loop (replicate 513 (CHR ''a'')) 0 [] ! 1 = [97]"
proof -
  note w = C4_base64ToBlob_roundtrip [of "[77, 97, 110]" "''audio/mp3''"
      "replicate 513 (CHR ''a'')"]
  from w have 1: "base64ToBlob ''TWFu'' ''audio/mp3'' =
     Inr \<lparr>blob_bytes = [77, 97, 110], blob_type = ''audio/mp3''\<rparr>"
    by (simp only: b64_encode_Man)
  from w have 2: "length (byteArrays_loop (replicate 513 (CHR ''a'')) 0 []) = 2"
    by simp
  from w have "\<forall>k < length (byteArrays_loop (replicate 513 (CHR ''a'')) 0 []).
        byteArrays_loop (replicate 513 (CHR ''a'')) 0 [] ! k =
          Uint8Array (map charCodeAt (js_slice (replicate 513 (CHR ''a'')) (k * 512) (k * 512 + 512)))"
    by (elim conjE)
  then have "byteArrays_loop (replicate 513 (CHR ''a'')) 0 [] ! 1 =
      Uint8Array (map charCodeAt (js_slice (replicate 513 (CHR ''a'')) (1 * 512) (1 * 512 + 512)))"
    unfolding 2 by simp
  then have 3: "byteArrays_loop (replicate 513 (CHR ''a'')) 0 [] ! 1 = [97]"
    by (simp add: js_slice_def Uint8Array_def charCodeAt_def)
  from 1 2 3 show ?thesis by (intro conjI)
qed

text \<open>
  C5. A click on the progress track at the fraction \<open>pos\<close> between 0 and 1: when the
  duration is a number \<open>d\<close>, \<open>currentTime\<close> becomes \<open>pos * d\<close> and nothing else changes;
  when the duration is not-a-number, the product is not-a-number, the assignment is
  refused, and the state, \<open>currentTime\<close> included, is as before.
\<close>

theorem C5_seek:
  assumes "0 \<le> pos" and "pos \<le> 1"
  shows "(duration (audios mc a) = Num d \<longrightarrow>
            progress_click pos a mc =
              (None, mc\<lparr>audios := (audios mc)(a := (audios mc a)\<lparr>currentTime := pos * d\<rparr>)\<rparr>))
         \<and> (duration (audios mc a) = NaN \<longrightarrow>
              snd (progress_click pos a mc) = mc
              \<and> currentTime (audios (snd (progress_click pos a mc)) a) = currentTime (audios mc a))"
  by (simp add: progress_click_def set_currentTime_def)

theorem C5_seek_witness:
  "(0::real) \<le> 1 / 2 \<and> (1 / 2 :: real) \<le> 1
   \<and> duration (audios playing_component 0) = Num 30
   \<and> currentTime (audios (snd (progress_click (1 / 2) 0 playing_component)) 0) = 15
   \<and> duration (audios playing_component 1) = NaN
   \<and> snd (progress_click (1 / 2) 1 playing_component) = playing_component"
proof -
  have p: "(0::real) \<le> 1 / 2" "(1 / 2 :: real) \<le> 1" by simp_all
  have d0: "duration (audios playing_component 0) = Num 30"
    by (simp add: playing_component_def)
  have d1: "duration (audios playing_component 1) = NaN"
    by (simp add: playing_component_def new_audio_def)
  from C5_seek [OF p, of playing_component 0 30] d0
  have "currentTime (audios (snd (progress_click (1 / 2) 0 playing_component)) 0) = 15"
    by simp
  moreover from C5_seek [OF p, of playing_component 1] d1
  have "snd (progress_click (1 / 2) 1 playing_component) = playing_component"
    by simp
  ultimately show ?thesis using p d0 d1 by simp
qed

text \<open>
  C6, as the specification states it, fails: after a frame whose \<open>cost_info\<close> has a
  \<open>total_cost\<close> and no \<open>remaining_budget\<close>, the remaining-budget field and its warning
  are those the page had before, so they differ between two pages that received the
  same frame.
\<close>

theorem C6_partial_merge_counterexample:
  "remainingBudget (handleWebSocketMessage total_only_frame warned_page) = ''4.00''
   \<and> cost_warning (handleWebSocketMessage total_only_frame warned_page)
   \<and> remainingBudget (handleWebSocketMessage total_only_frame initial_page) = ''25.00''
   \<and> \<not> cost_warning (handleWebSocketMessage total_only_frame initial_page)"
  by (simp add: ledger_after_frame ledger_after_update total_only_frame_def empty_frame_def
      warned_page_def initial_page_def)

text \<open>
  C6, amended. On a frame that carries \<open>cost_info\<close> each ledger field is overwritten
  by itself: the total-cost field when \<open>total_cost\<close> is a number, the remaining-budget
  field and its warning when \<open>remaining_budget\<close> is a number. A field whose member is
  missing keeps the text, and the warning, it had before the frame.
\<close>

theorem C6_ledger_fieldwise:
  assumes "cost_info data = Some ci"
  shows "totalCost (handleWebSocketMessage data pg) =
           (case total_cost ci of None \<Rightarrow> totalCost pg | Some t \<Rightarrow> toFixed t 3)
         \<and> remainingBudget (handleWebSocketMessage data pg) =
           (case remaining_budget ci of None \<Rightarrow> remainingBudget pg | Some r \<Rightarrow> toFixed r 2)
         \<and> cost_warning (handleWebSocketMessage data pg) =
           (case remaining_budget ci of None \<Rightarrow> cost_warning pg | Some r \<Rightarrow> r < 5)"
  using assms by (simp add: ledger_after_frame ledger_after_update)

theorem C6_ledger_fieldwise_witness:
  "cost_info total_only_frame =
     Some \<lparr>request_cost = None, total_cost = Some 1, remaining_budget = None\<rparr>
   \<and> totalCost (handleWebSocketMessage total_only_frame warned_page) = ''1.000''
   \<and> remainingBudget (handleWebSocketMessage total_only_frame warned_page) = ''4.00''
   \<and> cost_warning (handleWebSocketMessage total_only_frame warned_page)"
proof -
  have c: "cost_info total_only_frame =
     Some \<lparr>request_cost = None, total_cost = Some 1, remaining_budget = None\<rparr>"
    by (simp add: total_only_frame_def empty_frame_def)
  have t: "toFixed 1 3 = ''1.000''" by (simp add: toFixed_eval)
  from C6_ledger_fieldwise [OF c, of warned_page] c show ?thesis
    by (simp add: t warned_page_def)
qed

text \<open>
  C7. After a frame whose \<open>cost_info\<close> has a numeric \<open>remaining_budget\<close>, the warning
  is on exactly when that budget is below 5.00, and the remaining-budget field is the
  budget with two decimals: an optional sign, at least one digit, a point and two
  digits. When \<open>total_cost\<close> is a number too, the total-cost field is that number with
  three decimals. A total of 3.5 shows as \<open>3.500\<close> and a budget of 4.0 as \<open>4.00\<close>.
\<close>

theorem C7_budget_warning:
  assumes "cost_info data = Some ci" and "remaining_budget ci = Some r"
  shows "(cost_warning (handleWebSocketMessage data pg) \<longleftrightarrow> r < 5)
         \<and> remainingBudget (handleWebSocketMessage data pg) = toFixed r 2
         \<and> (\<exists>a b. remainingBudget (handleWebSocketMessage data pg) =
                (if r < 0 then ''-'' else '''') @ a @ ''.'' @ b
              \<and> a \<noteq> [] \<and> length b = 2 \<and> set a \<subseteq> digits \<and> set b \<subseteq> digits)
         \<and> (total_cost ci = Some t \<longrightarrow>
              totalCost (handleWebSocketMessage data pg) = toFixed t 3
              \<and> (\<exists>a b. totalCost (handleWebSocketMessage data pg) =
                    (if t < 0 then ''-'' else '''') @ a @ ''.'' @ b
                  \<and> a \<noteq> [] \<and> length b = 3 \<and> set a \<subseteq> digits \<and> set b \<subseteq> digits))
         \<and> toFixed (7 / 2) 3 = ''3.500'' \<and> toFixed 4 2 = ''4.00''"
proof -
  have 1: "cost_warning (handleWebSocketMessage data pg) \<longleftrightarrow> r < 5"
    using assms by (simp add: ledger_after_frame ledger_after_update)
  have 2: "remainingBudget (handleWebSocketMessage data pg) = toFixed r 2"
    using assms by (simp add: ledger_after_frame ledger_after_update)
  have 3: "\<exists>a b. remainingBudget (handleWebSocketMessage data pg) =
                (if r < 0 then ''-'' else '''') @ a @ ''.'' @ b
              \<and> a \<noteq> [] \<and> length b = 2 \<and> set a \<subseteq> digits \<and> set b \<subseteq> digits"
    unfolding 2 by (rule toFixed_shape) simp
  have 4: "total_cost ci = Some t \<longrightarrow>
              totalCost (handleWebSocketMessage data pg) = toFixed t 3
              \<and> (\<exists>a b. totalCost (handleWebSocketMessage data pg) =
                    (if t < 0 then ''-'' else '''') @ a @ ''.'' @ b
                  \<and> a \<noteq> [] \<and> length b = 3 \<and> set a \<subseteq> digits \<and> set b \<subseteq> digits)"
  proof
    assume "total_cost ci = Some t"
    with assms have e: "totalCost (handleWebSocketMessage data pg) = toFixed t 3"
      by (simp add: ledger_after_frame ledger_after_update)
    have "\<exists>a b. toFixed t 3 = (if t < 0 then ''-'' else '''') @ a @ ''.'' @ b
                  \<and> a \<noteq> [] \<and> length b = 3 \<and> set a \<subseteq> digits \<and> set b \<subseteq> digits"
      by (rule toFixed_shape) simp
    with e show "totalCost (handleWebSocketMessage data pg) = toFixed t 3
              \<and> (\<exists>a b. totalCost (handleWebSocketMessage data pg) =
                    (if t < 0 then ''-'' else '''') @ a @ ''.'' @ b
                  \<and> a \<noteq> [] \<and> length b = 3 \<and> set a \<subseteq> digits \<and> set b \<subseteq> digits)"
      by simp
  qed
  have 5: "toFixed (7 / 2) 3 = ''3.500''" by (simp add: toFixed_eval)
  have 6: "toFixed 4 2 = ''4.00''" by (simp add: toFixed_eval)
  from 1 2 3 4 5 6 show ?thesis by (intro conjI)
qed

theorem C7_budget_warning_witness:
  "cost_info scenario_cost_frame =
     Some \<lparr>request_cost = None, total_cost = Some (7 / 2), remaining_budget = Some 4\<rparr>
   \<and> handleWebSocketMessage scenario_cost_frame initial_page =
       \<lparr>messagesContainer = [], totalCost = ''3.500'', remainingBudget = ''4.00'',
        cost_warning = True\<rparr>"
proof -
  let ?ci = "\<lparr>request_cost = None, total_cost = Some (7 / 2), remaining_budget = Some 4\<rparr>"
  have c: "cost_info scenario_cost_frame = Some ?ci"
    by (simp add: scenario_cost_frame_def empty_frame_def)
  have r: "remaining_budget ?ci = Some 4" by simp
  have t: "total_cost ?ci = Some (7 / 2)" by simp
  have m: "messagesContainer (handleWebSocketMessage scenario_cost_frame initial_page) = []"
    by (simp add: handleWebSocketMessage_def scenario_cost_frame_def empty_frame_def
        is_error_message_def updateCostDisplay_messages initial_page_def)
  from C7_budget_warning [OF c r, of initial_page "7 / 2"] t
  have "cost_warning (handleWebSocketMessage scenario_cost_frame initial_page)"
    and "remainingBudget (handleWebSocketMessage scenario_cost_frame initial_page) = ''4.00''"
    and "totalCost (handleWebSocketMessage scenario_cost_frame initial_page) = ''3.500''"
    by simp_all
  with m c show ?thesis
    by (cases "handleWebSocketMessage scenario_cost_frame initial_page") simp
qed

text \<open>
  C8. The title chosen for an error text is a first-match substring test in a fixed
  order, on the characters as they are: a text that contains \<open>Prompt must be length\<close>
  gets \<open>PROMPT_TOO_LONG\<close>; otherwise one that contains \<open>budget exceeded\<close> gets
  \<open>BUDGET_EXCEEDED\<close>; any other gets \<open>GENERIC\<close>. Every text has one of the three
  titles, the first test wins when both substrings occur, and a text that differs
  in letter case only is \<open>GENERIC\<close>.
\<close>

theorem C8_classify:
  "classify s =
     (if (\<exists>ps ss. s = ps @ ''Prompt must be length'' @ ss) then PROMPT_TOO_LONG
      else if (\<exists>ps ss. s = ps @ ''budget exceeded'' @ ss) then BUDGET_EXCEEDED
      else GENERIC)
   \<and> classify s \<in> {PROMPT_TOO_LONG, BUDGET_EXCEEDED, GENERIC}
   \<and> classify (a @ ''budget exceeded'' @ b @ ''Prompt must be length'' @ c) = PROMPT_TOO_LONG
   \<and> classify ''Prompt must be length <= 100'' = PROMPT_TOO_LONG
   \<and> classify ''budget exceeded for session'' = BUDGET_EXCEEDED
   \<and> classify ''unknown failure'' = GENERIC
   \<and> classify ''prompt must be length 5'' = GENERIC
   \<and> classify ''Budget Exceeded'' = GENERIC"
proof -
  have 1: "classify s =
     (if (\<exists>ps ss. s = ps @ ''Prompt must be length'' @ ss) then PROMPT_TOO_LONG
      else if (\<exists>ps ss. s = ps @ ''budget exceeded'' @ ss) then BUDGET_EXCEEDED
      else GENERIC)"
    unfolding classify_def js_includes_iff ..
  have 2: "classify s \<in> {PROMPT_TOO_LONG, BUDGET_EXCEEDED, GENERIC}"
    by (simp add: classify_def)
  have "a @ ''budget exceeded'' @ b @ ''Prompt must be length'' @ c
        = (a @ ''budget exceeded'' @ b) @ ''Prompt must be length'' @ c" by simp
  then have "js_includes (a @ ''budget exceeded'' @ b @ ''Prompt must be length'' @ c)
        ''Prompt must be length''"
    unfolding js_includes_iff by blast
  then have 3: "classify (a @ ''budget exceeded'' @ b @ ''Prompt must be length'' @ c)
        = PROMPT_TOO_LONG"
    by (simp add: classify_def)
  have 4: "classify ''Prompt must be length <= 100'' = PROMPT_TOO_LONG"
    by (simp add: classify_def startsWith_def)
  have 5: "classify ''budget exceeded for session'' = BUDGET_EXCEEDED"
    by (simp add: classify_def startsWith_def)
  have 6: "classify ''unknown failure'' = GENERIC"
    by (simp add: classify_def startsWith_def)
  have 7: "classify ''prompt must be length 5'' = GENERIC"
    by (simp add: classify_def startsWith_def)
  have 8: "classify ''Budget Exceeded'' = GENERIC"
    by (simp add: classify_def startsWith_def)
  from 1 2 3 4 5 6 7 8 show ?thesis by blast
qed

text \<open>
  C9. \<open>formatTime\<close> returns \<open>0:00\<close> on not-a-number. On a number it returns the floor
  of \<open>seconds / 60\<close>, a colon, and the floor of the remainder \<open>seconds % 60\<close> filled with
  zeros to two places, the minutes unfilled. For a time that is not negative this is
  the decimal numeral of \<open>\<lfloor>seconds\<rfloor> div 60\<close>, a colon and the two decimal digits of
  \<open>\<lfloor>seconds\<rfloor> mod 60\<close>. So 75 gives \<open>1:15\<close>, 600 gives \<open>10:00\<close>, 59 gives \<open>0:59\<close> and 0
  gives \<open>0:00\<close>.
\<close>

theorem C9_formatTime:
  "formatTime NaN = ''0:00''
   \<and> formatTime (Num x) =
       int_toString \<lfloor>x / 60\<rfloor> @ '':'' @ padStart 2 (CHR ''0'') (int_toString \<lfloor>js_rem x 60\<rfloor>)
   \<and> (0 \<le> x \<longrightarrow> formatTime (Num x) =
         show_nat (nat \<lfloor>x\<rfloor> div 60) @ '':'' @
           [digit (nat \<lfloor>x\<rfloor> mod 60 div 10), digit (nat \<lfloor>x\<rfloor> mod 60 mod 10)])
   \<and> formatTime (Num 75) = ''1:15''
   \<and> formatTime (Num 600) = ''10:00''
   \<and> formatTime (Num 59) = ''0:59''
   \<and> formatTime (Num 0) = ''0:00''"
proof -
  have "formatTime (Num 75) = ''1:15''" by (simp add: formatTime_eval)
  moreover have "formatTime (Num 600) = ''10:00''" by (simp add: formatTime_eval)
  moreover have "formatTime (Num 59) = ''0:59''" by (simp add: formatTime_eval)
  moreover have "formatTime (Num 0) = ''0:00''" by (simp add: formatTime_eval)
  moreover have "formatTime (Num x) =
       int_toString \<lfloor>x / 60\<rfloor> @ '':'' @ padStart 2 (CHR ''0'') (int_toString \<lfloor>js_rem x 60\<rfloor>)"
    by simp
  ultimately show ?thesis using formatTime_nonneg [of x] by simp
qed

theorem C9_formatTime_witness:
  "(0::real) \<le> 3725.5 \<and> formatTime (Num 3725.5) = ''62:05''"
proof -
  have "show_nat (nat \<lfloor>3725.5 :: real\<rfloor> div 60) @ '':'' @
      [digit (nat \<lfloor>3725.5 :: real\<rfloor> mod 60 div 10), digit (nat \<lfloor>3725.5 :: real\<rfloor> mod 60 mod 10)]
      = ''62:05''"
    by (simp add: show_nat.simps digit_def)
  then show ?thesis using C9_formatTime [of "3725.5"] by simp
qed

text \<open>
  C10. A bot message rendered with a \<open>cost_info\<close> gets a chips container, and that
  container holds a cost chip exactly when \<open>request_cost\<close> is present and not zero; the
  chip then shows the cost with three decimals after a dollar sign. With a
  \<open>request_cost\<close> of 0, or none, there is no cost chip although \<open>cost_info\<close> is there.
  The agent-flow chip is attached exactly when the frame has an agent flow. The
  dispatcher appends this message node for every frame with such a \<open>cost_info\<close> and a
  message that is not empty and not an error.
\<close>

theorem C10_cost_chip:
  "appendMessage msg False (Some ci) af pg =
     pg\<lparr>messagesContainer := messagesContainer pg @
        [Message False msg (Some (createChipsContainer (Some ci) af))]\<rparr>
   \<and> ((\<exists>t. CostChip t \<in> set (createChipsContainer (Some ci) af)) \<longleftrightarrow>
        (\<exists>c. request_cost ci = Some c \<and> c \<noteq> 0))
   \<and> (request_cost ci = Some c \<and> c \<noteq> 0 \<longrightarrow>
        createChipsContainer (Some ci) af =
          CostChip (''$'' @ toFixed c 3) #
            (case af of None \<Rightarrow> [] | Some f \<Rightarrow> [AgentFlowChip True f]))
   \<and> ((\<exists>b f. AgentFlowChip b f \<in> set (createChipsContainer (Some ci) af)) \<longleftrightarrow> af \<noteq> None)
   \<and> (message data = Some m \<and> m \<noteq> [] \<and> \<not> startsWith m ''Error:''
        \<and> cost_info data = Some ci \<longrightarrow>
        (\<exists>ns. messagesContainer (handleWebSocketMessage data pg) =
           messagesContainer pg @
             Message False m (Some (createChipsContainer (Some ci) (agent_flow data))) # ns))"
proof -
  have 1: "appendMessage msg False (Some ci) af pg =
     pg\<lparr>messagesContainer := messagesContainer pg @
        [Message False msg (Some (createChipsContainer (Some ci) af))]\<rparr>"
    by (simp add: appendMessage_def)
  have 5: "message data = Some m \<and> m \<noteq> [] \<and> \<not> startsWith m ''Error:''
        \<and> cost_info data = Some ci \<longrightarrow>
        (\<exists>ns. messagesContainer (handleWebSocketMessage data pg) =
           messagesContainer pg @
             Message False m (Some (createChipsContainer (Some ci) (agent_flow data))) # ns)"
  proof
    assume a: "message data = Some m \<and> m \<noteq> [] \<and> \<not> startsWith m ''Error:''
        \<and> cost_info data = Some ci"
    then show "\<exists>ns. messagesContainer (handleWebSocketMessage data pg) =
           messagesContainer pg @
             Message False m (Some (createChipsContainer (Some ci) (agent_flow data))) # ns"
      using bot_message_first [of data m pg] by simp
  qed
  have 3: "request_cost ci = Some c \<and> c \<noteq> 0 \<longrightarrow>
        createChipsContainer (Some ci) af =
          CostChip (''$'' @ toFixed c 3) #
            (case af of None \<Rightarrow> [] | Some f \<Rightarrow> [AgentFlowChip True f])"
    using chips_cost_value [of ci c af] by blast
  from 1 chips_cost_iff [of ci af] 3 chips_flow_iff [of "Some ci" af] 5
  show ?thesis by (intro conjI)
qed

theorem C10_cost_chip_witness:
  "message zero_cost_frame = Some ''hello'' \<and> ''hello'' \<noteq> [] \<and> \<not> startsWith ''hello'' ''Error:''
   \<and> cost_info zero_cost_frame =
       Some \<lparr>request_cost = Some 0, total_cost = None, remaining_budget = None\<rparr>
   \<and> messagesContainer (handleWebSocketMessage zero_cost_frame initial_page) =
       [Message False ''hello'' (Some [AgentFlowChip True sample_flow])]"
proof -
  let ?ci = "\<lparr>request_cost = Some 0, total_cost = None, remaining_budget = None\<rparr>"
  have h: "message zero_cost_frame = Some ''hello'' \<and> ''hello'' \<noteq> []
      \<and> \<not> startsWith ''hello'' ''Error:'' \<and> cost_info zero_cost_frame = Some ?ci"
    by (simp add: zero_cost_frame_def empty_frame_def startsWith_def)
  have e: "messagesContainer (handleWebSocketMessage zero_cost_frame initial_page) =
       [Message False ''hello'' (Some [AgentFlowChip True sample_flow])]"
    by (simp add: handleWebSocketMessage_def zero_cost_frame_def empty_frame_def
        is_error_message_def startsWith_def appendMessage_def updateCostDisplay_messages
        createChipsContainer_def createAgentFlowChip_def initial_page_def)
  from C10_cost_chip [of "''hello''" ?ci "Some sample_flow" initial_page 0 zero_cost_frame
      "''hello''"]
  have "\<not> (\<exists>t. CostChip t \<in> set (createChipsContainer (Some ?ci) (Some sample_flow)))"
    by simp
  with h e show ?thesis by simp
qed

end
